theory Spec2Isabelle
  imports Main
begin

section \<open>Strings of code points\<close>

text \<open>
  A Python \<^verbatim>\<open>str\<close> is a sequence of Unicode code points, and \<^verbatim>\<open>len\<close>, slicing and
  the \<^verbatim>\<open>re\<close> module all count code points. A HOL \<^typ>\<open>char\<close> is one byte, so the
  full block \<^verbatim>\<open>U+2588\<close> of the text renderer would be three of them. Strings are
  therefore lists of code points, and an ASCII literal of the source is written
  \<open>lit ''...''\<close>.
\<close>

type_synonym codepoint = nat
type_synonym str = "codepoint list"

definition lit :: "string \<Rightarrow> str" where
  "lit s = map of_char s"

definition hyphen :: codepoint where
  "hyphen = 45"

definition newline :: codepoint where
  "newline = 10"

definition space :: codepoint where
  "space = 32"

definition hash :: codepoint where
  "hash = 35"

definition full_block :: codepoint where
  "full_block = 9608"

subsection \<open>The character classes of the regular expressions\<close>

text \<open>
  \<^verbatim>\<open>\w\<close> and \<^verbatim>\<open>\s\<close> in a \<^verbatim>\<open>str\<close> pattern are the Unicode classes: \<^verbatim>\<open>\w\<close> is
  \<^verbatim>\<open>str.isalnum\<close> or the underscore, \<^verbatim>\<open>\s\<close> is \<^verbatim>\<open>str.isspace\<close>. Below 128 both are
  fixed: \<^verbatim>\<open>[a-zA-Z0-9_]\<close>, and the code points 9 to 13, 28 to 31 and 32. From 128 on
  they are tables of the Unicode database that ships with the interpreter, which
  is not part of this repository: the two tables are a parameter of the model.
\<close>

record unicode_db =
  uni_alnum :: "codepoint \<Rightarrow> bool"
  uni_space :: "codepoint \<Rightarrow> bool"

definition ascii_alnum :: "codepoint \<Rightarrow> bool" where
  "ascii_alnum c \<longleftrightarrow> (48 \<le> c \<and> c \<le> 57) \<or> (65 \<le> c \<and> c \<le> 90) \<or> (97 \<le> c \<and> c \<le> 122)"

definition ascii_space :: "codepoint \<Rightarrow> bool" where
  "ascii_space c \<longleftrightarrow> (9 \<le> c \<and> c \<le> 13) \<or> (28 \<le> c \<and> c \<le> 32)"

definition is_word :: "unicode_db \<Rightarrow> codepoint \<Rightarrow> bool" where
  "is_word db c \<longleftrightarrow> c = 95 \<or> (if c < 128 then ascii_alnum c else uni_alnum db c)"

definition is_space :: "unicode_db \<Rightarrow> codepoint \<Rightarrow> bool" where
  "is_space db c \<longleftrightarrow> (if c < 128 then ascii_space c else uni_space db c)"

section \<open>File names from input text\<close>

text \<open>
  \<^verbatim>\<open>re.sub(r'[^\w\s-]', '', text)\<close> deletes every code point outside the class, which
  keeps the ones inside it.
\<close>

definition keep_char :: "unicode_db \<Rightarrow> codepoint \<Rightarrow> bool" where
  "keep_char db c \<longleftrightarrow> is_word db c \<or> is_space db c \<or> c = hyphen"

definition remove_special :: "unicode_db \<Rightarrow> str \<Rightarrow> str" where
  "remove_special db text = filter (keep_char db) text"

text \<open>
  \<^verbatim>\<open>re.sub(r'[-\s]+', '-', filename)\<close>: matches are found from the left, do not
  overlap, and \<^verbatim>\<open>+\<close> is greedy, so every maximal run of hyphens and whitespace
  becomes one hyphen.
\<close>

definition is_sep :: "unicode_db \<Rightarrow> codepoint \<Rightarrow> bool" where
  "is_sep db c \<longleftrightarrow> c = hyphen \<or> is_space db c"

function collapse_runs :: "unicode_db \<Rightarrow> str \<Rightarrow> str" where
  "collapse_runs db [] = []"
| "collapse_runs db (c # cs) =
     (if is_sep db c then hyphen # collapse_runs db (dropWhile (is_sep db) cs)
      else c # collapse_runs db cs)"
  by pat_completeness auto
termination
  by (relation "measure (\<lambda>(db, cs). length cs)")
     (auto simp: le_imp_less_Suc length_dropWhile_le)

text \<open>\<^verbatim>\<open>filename.strip('-')\<close> removes hyphens from both ends.\<close>

definition strip_hyphens :: "str \<Rightarrow> str" where
  "strip_hyphens s = rev (dropWhile (\<lambda>c. c = hyphen) (rev (dropWhile (\<lambda>c. c = hyphen) s)))"

text \<open>
  \<^verbatim>\<open>sanitize_filename\<close>: the three steps, then \<^verbatim>\<open>filename[:50] if filename else "qrcode"\<close>.
  The empty string is the only falsy string.
\<close>

definition sanitize_filename :: "unicode_db \<Rightarrow> str \<Rightarrow> str" where
  "sanitize_filename db text =
     (let filename = strip_hyphens (collapse_runs db (remove_special db text))
      in if filename \<noteq> [] then take 50 filename else lit ''qrcode'')"

text \<open>
  What the result is meant to look like: \<open>single_hyphens\<close> says that no two hyphens
  are adjacent, and a well-formed name is a non-empty string of word characters and
  single hyphens that neither starts nor ends with a hyphen. The function does not
  use these; its properties are stated with them.
\<close>

fun single_hyphens :: "str \<Rightarrow> bool" where
  "single_hyphens [] \<longleftrightarrow> True"
| "single_hyphens [c] \<longleftrightarrow> True"
| "single_hyphens (c # d # cs) \<longleftrightarrow> (c \<noteq> hyphen \<or> d \<noteq> hyphen) \<and> single_hyphens (d # cs)"

definition well_formed_name :: "unicode_db \<Rightarrow> str \<Rightarrow> bool" where
  "well_formed_name db s \<longleftrightarrow>
     s \<noteq> [] \<and> list_all (\<lambda>c. c = hyphen \<or> (is_word db c \<and> \<not> is_space db c)) s
     \<and> single_hyphens s \<and> hd s \<noteq> hyphen \<and> last s \<noteq> hyphen"

section \<open>The text renderer\<close>

text \<open>
  \<^verbatim>\<open>emit_text\<close> reads the module matrix \<^verbatim>\<open>qr.get_matrix()\<close>, a list of rows of
  booleans with the border already applied; the model takes that matrix. Each row
  is \<^verbatim>\<open>"".join(black if cell else white for cell in row)\<close>, and the result is
  \<^verbatim>\<open>"\n".join(lines) + "\n"\<close>.
\<close>

type_synonym matrix = "bool list list"

definition render_row :: "str \<Rightarrow> str \<Rightarrow> bool list \<Rightarrow> str" where
  "render_row black white row = concat (map (\<lambda>cell. if cell then black else white) row)"

fun str_join :: "str \<Rightarrow> str list \<Rightarrow> str" where
  "str_join sep [] = []"
| "str_join sep [x] = x"
| "str_join sep (x # y # ys) = x @ sep @ str_join sep (y # ys)"

definition emit_text :: "matrix \<Rightarrow> bool \<Rightarrow> str" where
  "emit_text m use_unicode =
     (let lines = (if use_unicode then map (render_row [full_block] [space]) m
                   else map (render_row [hash, hash] [space, space]) m)
      in str_join [newline] lines @ [newline])"

text \<open>The row of glyphs that \<^verbatim>\<open>emit_text\<close> produces for one matrix row, in either mode.\<close>

definition glyph_row :: "bool \<Rightarrow> bool list \<Rightarrow> str" where
  "glyph_row use_unicode row =
     (if use_unicode then render_row [full_block] [space] row
      else render_row [hash, hash] [space, space] row)"

text \<open>
  The lines of a text, as a terminal or \<^verbatim>\<open>str.splitlines\<close> sees them: every newline
  ends a line, and what follows the last newline is a line when it is not empty.
  This is the notion of line that the properties of the renderer are stated with;
  the renderer itself does not use it.
\<close>

fun lines_from :: "str \<Rightarrow> str \<Rightarrow> str list" where
  "lines_from cur [] = (if cur = [] then [] else [cur])"
| "lines_from cur (c # cs) =
     (if c = newline then cur # lines_from [] cs else lines_from (cur @ [c]) cs)"

definition lines_of :: "str \<Rightarrow> str list" where
  "lines_of s = lines_from [] s"

text \<open>
  The substitution that turns the glyphs of the unicode rendering into two-character
  cells: a full block becomes \<^verbatim>\<open>##\<close>, a space becomes two spaces, anything else
  (the newlines) stays.
\<close>

definition widen_char :: "codepoint \<Rightarrow> str" where
  "widen_char c = (if c = full_block then [hash, hash] else if c = space then [space, space] else [c])"

definition widen :: "str \<Rightarrow> str" where
  "widen s = concat (map widen_char s)"

section \<open>The vector renderer\<close>


datatype error = UsageError | EncodingError


section \<open>The command line\<close>

text \<open>
  The namespace that \<^verbatim>\<open>parse_args\<close> returns, one field per argument of the parser.
  \<^verbatim>\<open>--out\<close> has no default, so it is \<^verbatim>\<open>None\<close> when absent.
\<close>

record args =
  input :: str
  to_png :: bool
  to_svg :: bool
  out :: "str option"
  level :: str
  box_size :: int
  border :: int
  ascii :: bool
  svg_style :: str

text \<open>
  The command line as the occurrences of the declared options, in order, with the
  value of each (the integers of \<^verbatim>\<open>--box-size\<close> and \<^verbatim>\<open>--border\<close> already converted).
  How \<^verbatim>\<open>argparse\<close> tokenises the raw words is not modelled.
\<close>

datatype cli_arg =
    ArgInput str
  | ArgToPng
  | ArgToSvg
  | ArgOut str
  | ArgLevel str
  | ArgBoxSize int
  | ArgBorder int
  | ArgAscii
  | ArgSvgStyle str

text \<open>
  The defaults of the declarations: \<^verbatim>\<open>store_true\<close> flags start as \<^verbatim>\<open>False\<close>, the
  others at their \<^verbatim>\<open>default=\<close>. \<^verbatim>\<open>--input\<close> is required and has no default: the
  empty string stands in until the required occurrence overwrites it.
\<close>

definition parser_defaults :: args where
  "parser_defaults =
     \<lparr>input = [], to_png = False, to_svg = False, out = None, level = lit ''M'',
      box_size = 10, border = 4, ascii = False, svg_style = lit ''path''\<rparr>"

fun store :: "args \<Rightarrow> cli_arg \<Rightarrow> args" where
  "store a (ArgInput s) = a\<lparr>input := s\<rparr>"
| "store a ArgToPng = a\<lparr>to_png := True\<rparr>"
| "store a ArgToSvg = a\<lparr>to_svg := True\<rparr>"
| "store a (ArgOut p) = a\<lparr>out := Some p\<rparr>"
| "store a (ArgLevel l) = a\<lparr>level := l\<rparr>"
| "store a (ArgBoxSize n) = a\<lparr>box_size := n\<rparr>"
| "store a (ArgBorder n) = a\<lparr>border := n\<rparr>"
| "store a ArgAscii = a\<lparr>ascii := True\<rparr>"
| "store a (ArgSvgStyle s) = a\<lparr>svg_style := s\<rparr>"

text \<open>The \<^verbatim>\<open>choices=\<close> of \<^verbatim>\<open>--level\<close> (the keys of \<^verbatim>\<open>EC_LEVELS\<close>) and of \<^verbatim>\<open>--svg-style\<close>.\<close>

fun choice_ok :: "cli_arg \<Rightarrow> bool" where
  "choice_ok (ArgLevel l) = (l \<in> set [lit ''L'', lit ''M'', lit ''Q'', lit ''H''])"
| "choice_ok (ArgSvgStyle s) = (s \<in> set [lit ''path'', lit ''rect'', lit ''frag''])"
| "choice_ok _ = True"

fun is_input :: "cli_arg \<Rightarrow> bool" where
  "is_input (ArgInput s) = True"
| "is_input _ = False"

text \<open>
  \<^verbatim>\<open>parse_args\<close> exits with a usage error when a value is not among the choices,
  when both flags of the mutually exclusive group occur, or when the required
  \<^verbatim>\<open>--input\<close> is missing; otherwise each occurrence stores its value, the last one
  winning.
\<close>

definition parse_args :: "cli_arg list \<Rightarrow> error + args" where
  "parse_args argv =
     (if \<not> list_all choice_ok argv then Inl UsageError
      else if ArgToPng \<in> set argv \<and> ArgToSvg \<in> set argv then Inl UsageError
      else if \<not> list_ex is_input argv then Inl UsageError
      else Inr (foldl store parser_defaults argv))"

section \<open>The output target\<close>

text \<open>
  \<^verbatim>\<open>main\<close> computes \<^verbatim>\<open>output_file\<close> and \<^verbatim>\<open>to_file\<close>. The test \<^verbatim>\<open>if args.out:\<close> is
  Python truthiness: \<^verbatim>\<open>None\<close> and the empty string both take the \<^verbatim>\<open>else\<close> branch.
\<close>

definition auto_target :: "unicode_db \<Rightarrow> args \<Rightarrow> str \<times> bool" where
  "auto_target db a =
     (if to_png a \<or> to_svg a then
        (let base_name = sanitize_filename db (input a);
             extension = (if to_png a then lit ''.png'' else lit ''.svg'')
         in (base_name @ extension, True))
      else (lit ''-'', False))"

definition output_target :: "unicode_db \<Rightarrow> args \<Rightarrow> str \<times> bool" where
  "output_target db a =
     (case out a of
        None \<Rightarrow> auto_target db a
      | Some output_file \<Rightarrow>
          (if output_file \<noteq> [] then (output_file, output_file \<noteq> lit ''-'')
           else auto_target db a))"

text \<open>
  The three branches of \<^verbatim>\<open>main\<close> that follow: PNG when \<^verbatim>\<open>to_png\<close>, else SVG when
  \<^verbatim>\<open>to_svg\<close>, else text. Each writes its payload to the file \<^verbatim>\<open>output_file\<close> when
  \<^verbatim>\<open>to_file\<close> holds and to standard output otherwise.
\<close>

datatype output_format = Text | Raster | Vector

definition selected_format :: "args \<Rightarrow> output_format" where
  "selected_format a = (if to_png a then Raster else if to_svg a then Vector else Text)"

datatype target = Stream | File str

definition resolve_target :: "unicode_db \<Rightarrow> args \<Rightarrow> target" where
  "resolve_target db a =
     (case output_target db a of (output_file, to_file) \<Rightarrow>
        if to_file then File output_file else Stream)"

text \<open>
  A Unicode database for concrete examples: no code point from 128 on is
  alphanumeric or whitespace. The examples below are ASCII, so they evaluate the
  same under any database.
\<close>

definition no_codepoint :: "codepoint \<Rightarrow> bool" where
  "no_codepoint c = False"

definition ascii_db :: unicode_db where
  "ascii_db = \<lparr>uni_alnum = no_codepoint, uni_space = no_codepoint\<rparr>"


section \<open>Properties of the file name\<close>

lemmas class_defs = keep_char_def is_word_def is_space_def is_sep_def ascii_alnum_def
  ascii_space_def hyphen_def

lemmas sanitize_defs = sanitize_filename_def remove_special_def strip_hyphens_def lit_def

lemma length_sanitize_filename: "length (sanitize_filename db text) \<le> 50"
  by (simp add: sanitize_filename_def Let_def lit_def)

lemma collapse_runs_all_sep:
  assumes "\<forall>c\<in>set s. is_sep db c"
  shows "collapse_runs db s = (if s = [] then [] else [hyphen])"
proof (cases s)
  case Nil
  then show ?thesis by simp
next
  case (Cons c cs)
  with assms have "dropWhile (is_sep db) cs = []" by simp
  with Cons assms show ?thesis by (simp del: dropWhile_eq_Nil_conv)
qed

lemma sanitize_filename_fallback:
  assumes "\<forall>c\<in>set text. \<not> is_word db c"
  shows "sanitize_filename db text = lit ''qrcode''"
proof -
  let ?kept = "remove_special db text"
  have "\<forall>c\<in>set ?kept. is_sep db c"
    using assms by (auto simp: remove_special_def keep_char_def is_sep_def)
  then have "collapse_runs db ?kept = (if ?kept = [] then [] else [hyphen])"
    by (rule collapse_runs_all_sep)
  then have "strip_hyphens (collapse_runs db ?kept) = []"
    by (simp add: strip_hyphens_def)
  then show ?thesis by (simp add: sanitize_filename_def)
qed

lemma sanitize_filename_example:
  "sanitize_filename db (lit ''https://example.com'') = lit ''httpsexamplecom''"
  by (simp add: sanitize_defs class_defs)

lemma sanitize_filename_truncated:
  "sanitize_filename db (lit (replicate 49 (CHR ''a'') @ ''-b''))
     = lit (replicate 49 (CHR ''a'') @ ''-'')"
  by (simp add: sanitize_defs class_defs numeral_eq_Suc)

lemma sanitize_filename_again:
  "sanitize_filename db (lit (replicate 49 (CHR ''a'') @ ''-'')) = lit (replicate 49 (CHR ''a''))"
  by (simp add: sanitize_defs class_defs numeral_eq_Suc)

subsection \<open>The shape of the result\<close>

text \<open>
  Stripping is a slice, so it keeps the properties of the collapsed string; the
  truncation that follows keeps them too, except that the last code point may now
  be a hyphen.
\<close>

lemma single_hyphens_Cons: "single_hyphens (c # cs) \<Longrightarrow> single_hyphens cs"
  by (cases cs) auto

lemma single_hyphens_Cons_other: "c \<noteq> hyphen \<Longrightarrow> single_hyphens (c # cs) = single_hyphens cs"
  by (cases cs) auto

lemma single_hyphens_drop: "single_hyphens s \<Longrightarrow> single_hyphens (drop n s)"
proof (induction n arbitrary: s)
  case 0
  then show ?case by simp
next
  case (Suc n)
  then show ?case by (cases s) (auto dest: single_hyphens_Cons)
qed

lemma single_hyphens_take: "single_hyphens s \<Longrightarrow> single_hyphens (take n s)"
proof (induction s arbitrary: n rule: single_hyphens.induct)
  case 1
  then show ?case by simp
next
  case (2 c)
  then show ?case by (cases n) auto
next
  case (3 c d cs)
  show ?case
  proof (cases n)
    case 0
    then show ?thesis by simp
  next
    case (Suc k)
    from 3 have "single_hyphens (take k (d # cs))" by simp
    with 3 Suc show ?thesis by (cases k) auto
  qed
qed

lemma strip_hyphens_take_drop:
  "\<exists>a b. strip_hyphens s = take a (drop b s)"
proof -
  let ?p = "\<lambda>c. c = hyphen"
  let ?ys = "dropWhile ?p s"
  have "strip_hyphens s = rev (drop (length (takeWhile ?p (rev ?ys))) (rev ?ys))"
    by (simp add: strip_hyphens_def dropWhile_eq_drop [symmetric])
  also have "\<dots> = take (length ?ys - length (takeWhile ?p (rev ?ys))) ?ys"
    by (simp add: rev_drop)
  also have "?ys = drop (length (takeWhile ?p s)) s"
    by (rule dropWhile_eq_drop)
  finally show ?thesis by blast
qed

lemma hd_strip_hyphens: "strip_hyphens s \<noteq> [] \<Longrightarrow> hd (strip_hyphens s) \<noteq> hyphen"
proof -
  let ?p = "\<lambda>c. c = hyphen"
  let ?ys = "dropWhile ?p s"
  assume ne: "strip_hyphens s \<noteq> []"
  obtain a where a: "strip_hyphens s = take a ?ys"
    using rev_drop [of "length (takeWhile ?p (rev ?ys))" "rev ?ys"]
    by (simp add: strip_hyphens_def dropWhile_eq_drop [symmetric])
  with ne have "?ys \<noteq> []" and "0 < a" by auto
  then have "hd (take a ?ys) = hd ?ys" and "\<not> ?p (hd ?ys)"
    using hd_dropWhile [of ?p s] by (auto simp: hd_take)
  with a show ?thesis by simp
qed

lemma last_strip_hyphens: "strip_hyphens s \<noteq> [] \<Longrightarrow> last (strip_hyphens s) \<noteq> hyphen"
proof -
  let ?p = "\<lambda>c. c = hyphen"
  let ?zs = "dropWhile ?p (rev (dropWhile ?p s))"
  assume "strip_hyphens s \<noteq> []"
  then have "?zs \<noteq> []" by (simp add: strip_hyphens_def)
  then have "\<not> ?p (hd ?zs)" by (rule hd_dropWhile)
  moreover have "last (strip_hyphens s) = hd ?zs"
    using \<open>?zs \<noteq> []\<close> by (simp add: strip_hyphens_def last_rev)
  ultimately show ?thesis by simp
qed

lemma set_collapse_runs:
  "set (collapse_runs db s) \<subseteq> insert hyphen {c \<in> set s. \<not> is_sep db c}"
proof (induction db s rule: collapse_runs.induct)
  case (1 db)
  then show ?case by simp
next
  case (2 db c cs)
  show ?case
  proof (cases "is_sep db c")
    case True
    with 2 have "set (collapse_runs db (dropWhile (is_sep db) cs))
        \<subseteq> insert hyphen {c \<in> set (dropWhile (is_sep db) cs). \<not> is_sep db c}"
      by simp
    with True show ?thesis by (auto dest: set_dropWhileD)
  next
    case False
    with 2 show ?thesis by auto
  qed
qed

lemma single_hyphens_collapse_runs: "single_hyphens (collapse_runs db s)"
proof (induction db s rule: collapse_runs.induct)
  case (1 db)
  then show ?case by simp
next
  case (2 db c cs)
  show ?case
  proof (cases "is_sep db c")
    case True
    let ?t = "dropWhile (is_sep db) cs"
    from True 2 have ih: "single_hyphens (collapse_runs db ?t)" by simp
    show ?thesis
    proof (cases ?t)
      case Nil
      with True show ?thesis by (simp del: dropWhile_eq_Nil_conv)
    next
      case (Cons d ds)
      then have "\<not> is_sep db d" using hd_dropWhile [of "is_sep db" cs] by auto
      then have "d \<noteq> hyphen" and "collapse_runs db ?t = d # collapse_runs db ds"
        using Cons by (auto simp: is_sep_def)
      with ih True show ?thesis by simp
    qed
  next
    case False
    then have "c \<noteq> hyphen" by (auto simp: is_sep_def)
    with False 2 show ?thesis by (simp add: single_hyphens_Cons_other)
  qed
qed

lemma collapse_runs_id:
  "list_all (\<lambda>c. c = hyphen \<or> \<not> is_sep db c) s \<Longrightarrow> single_hyphens s \<Longrightarrow> collapse_runs db s = s"
proof (induction s rule: single_hyphens.induct)
  case 1
  then show ?case by simp
next
  case (2 c)
  then show ?case by auto
next
  case (3 c d cs)
  then have rest: "collapse_runs db (d # cs) = d # cs" by simp
  show ?case
  proof (cases "is_sep db c")
    case True
    with 3 have "c = hyphen" by simp
    with 3 have "d \<noteq> hyphen" by simp
    with 3 have "\<not> is_sep db d" by simp
    with True \<open>c = hyphen\<close> rest show ?thesis by simp
  next
    case False
    with rest show ?thesis by simp
  qed
qed

lemma well_formed_qrcode: "well_formed_name db (lit ''qrcode'')"
  by (simp add: well_formed_name_def lit_def class_defs)

lemma set_strip_hyphens: "set (strip_hyphens s) \<subseteq> set s"
proof -
  obtain a b where "strip_hyphens s = take a (drop b s)"
    using strip_hyphens_take_drop by blast
  then show ?thesis
    using set_take_subset [of a "drop b s"] set_drop_subset [of b s] by auto
qed

lemma single_hyphens_strip_hyphens: "single_hyphens s \<Longrightarrow> single_hyphens (strip_hyphens s)"
proof -
  assume "single_hyphens s"
  moreover obtain a b where "strip_hyphens s = take a (drop b s)"
    using strip_hyphens_take_drop by blast
  ultimately show ?thesis
    by (simp add: single_hyphens_take single_hyphens_drop)
qed

lemma name_chars:
  "list_all (\<lambda>c. c = hyphen \<or> (is_word db c \<and> \<not> is_space db c))
     (strip_hyphens (collapse_runs db (remove_special db text)))"
proof -
  have "set (strip_hyphens (collapse_runs db (remove_special db text)))
      \<subseteq> insert hyphen {c \<in> set (remove_special db text). \<not> is_sep db c}"
    using set_strip_hyphens set_collapse_runs by blast
  then show ?thesis
    by (auto simp: list_all_iff remove_special_def keep_char_def is_sep_def)
qed

lemma sanitize_filename_shape:
  "sanitize_filename db text \<noteq> []
   \<and> list_all (\<lambda>c. c = hyphen \<or> (is_word db c \<and> \<not> is_space db c)) (sanitize_filename db text)
   \<and> single_hyphens (sanitize_filename db text)
   \<and> hd (sanitize_filename db text) \<noteq> hyphen"
proof (cases "strip_hyphens (collapse_runs db (remove_special db text)) = []")
  case True
  then have "sanitize_filename db text = lit ''qrcode''"
    by (simp add: sanitize_filename_def)
  then show ?thesis
    using well_formed_qrcode [of db] by (simp add: well_formed_name_def)
next
  case False
  let ?t = "strip_hyphens (collapse_runs db (remove_special db text))"
  from False have result: "sanitize_filename db text = take 50 ?t"
    by (simp add: sanitize_filename_def)
  have "list_all (\<lambda>c. c = hyphen \<or> (is_word db c \<and> \<not> is_space db c)) (take 50 ?t)"
    using name_chars [of db] set_take_subset [of 50 ?t] by (auto simp: list_all_iff)
  moreover have "single_hyphens (take 50 ?t)"
    by (simp add: single_hyphens_take single_hyphens_strip_hyphens single_hyphens_collapse_runs)
  moreover have "hd (take 50 ?t) \<noteq> hyphen"
    using False hd_strip_hyphens [of "collapse_runs db (remove_special db text)"]
    by (simp add: hd_take)
  ultimately show ?thesis
    using False by (simp add: result)
qed

lemma sanitize_filename_untruncated:
  assumes "length (strip_hyphens (collapse_runs db (remove_special db text))) \<le> 50"
  shows "last (sanitize_filename db text) \<noteq> hyphen"
proof (cases "strip_hyphens (collapse_runs db (remove_special db text)) = []")
  case True
  then show ?thesis by (simp add: sanitize_filename_def lit_def hyphen_def)
next
  case False
  with assms last_strip_hyphens [OF False] show ?thesis
    by (simp add: sanitize_filename_def)
qed

lemma strip_hyphens_id:
  assumes "s \<noteq> []" and "hd s \<noteq> hyphen" and "last s \<noteq> hyphen"
  shows "strip_hyphens s = s"
proof -
  from assms obtain c cs where s: "s = c # cs" and "c \<noteq> hyphen" by (cases s) auto
  then have front: "dropWhile (\<lambda>c. c = hyphen) s = s" by simp
  from assms have "rev s \<noteq> []" and "hd (rev s) \<noteq> hyphen" by (simp_all add: hd_rev)
  then obtain d ds where "rev s = d # ds" and "d \<noteq> hyphen" by (cases "rev s") auto
  then have "dropWhile (\<lambda>c. c = hyphen) (rev s) = rev s" by simp
  with front show ?thesis by (simp add: strip_hyphens_def)
qed

lemma sanitize_filename_fixpoint:
  assumes "well_formed_name db s" and "length s \<le> 50"
  shows "sanitize_filename db s = s"
proof -
  from assms have kept: "remove_special db s = s"
    by (auto simp: well_formed_name_def remove_special_def list_all_iff keep_char_def
        intro!: filter_True)
  from assms have "list_all (\<lambda>c. c = hyphen \<or> \<not> is_sep db c) s"
    by (auto simp: well_formed_name_def list_all_iff is_sep_def)
  with assms have collapsed: "collapse_runs db s = s"
    by (simp add: collapse_runs_id well_formed_name_def)
  from assms have stripped: "strip_hyphens s = s"
    by (simp add: strip_hyphens_id well_formed_name_def)
  from assms show ?thesis
    by (simp add: sanitize_filename_def kept collapsed stripped well_formed_name_def)
qed

lemma sanitize_filename_idempotent_if:
  assumes "last (sanitize_filename db text) \<noteq> hyphen"
  shows "sanitize_filename db (sanitize_filename db text) = sanitize_filename db text"
proof (rule sanitize_filename_fixpoint)
  show "well_formed_name db (sanitize_filename db text)"
    using assms sanitize_filename_shape [of db] by (simp add: well_formed_name_def)
  show "length (sanitize_filename db text) \<le> 50"
    by (rule length_sanitize_filename)
qed

subsection \<open>Where the result falls short\<close>

text \<open>
  C2: \<^verbatim>\<open>sanitize_filename\<close> applied twice gives the same as applied once. The code
  does not do this: it strips the hyphens before it truncates, so a name cut at 50
  code points can end in a hyphen, which a second application strips. For 49
  letters \<^verbatim>\<open>a\<close> followed by \<^verbatim>\<open>-b\<close> the first application yields the 49 letters and
  the hyphen, the second the 49 letters alone. Whenever the first result does not
  end in a hyphen, the second application changes nothing
  (\<open>sanitize_filename_idempotent_if\<close>).
\<close>

theorem sanitize_filename_not_idempotent:
  "sanitize_filename db (sanitize_filename db (lit (replicate 49 (CHR ''a'') @ ''-b'')))
     = lit (replicate 49 (CHR ''a''))
   \<and> sanitize_filename db (lit (replicate 49 (CHR ''a'') @ ''-b''))
     = lit (replicate 49 (CHR ''a'') @ ''-'')
   \<and> sanitize_filename db (sanitize_filename db (lit (replicate 49 (CHR ''a'') @ ''-b'')))
     \<noteq> sanitize_filename db (lit (replicate 49 (CHR ''a'') @ ''-b''))"
proof -
  let ?x = "lit (replicate 49 (CHR ''a'') @ ''-b'')"
  have once: "sanitize_filename db ?x = lit (replicate 49 (CHR ''a'') @ ''-'')"
    by (rule sanitize_filename_truncated)
  have twice: "sanitize_filename db (sanitize_filename db ?x) = lit (replicate 49 (CHR ''a''))"
    unfolding once by (rule sanitize_filename_again)
  have differ: "lit (replicate 49 (CHR ''a'')) \<noteq> lit (replicate 49 (CHR ''a'') @ ''-'')"
    by (simp add: lit_def)
  from twice once differ show ?thesis
    by (simp only: simp_thms)
qed

text \<open>
  C3: the result of \<^verbatim>\<open>sanitize_filename\<close> has at most 50 code points, is made of
  word characters separated by single hyphens with no hyphen at either end, and is
  \<^verbatim>\<open>qrcode\<close> when nothing is left of the input. The bound, the fallback, the
  characters, the single hyphens and the first code point hold
  (\<open>length_sanitize_filename\<close>, \<open>sanitize_filename_fallback\<close>,
  \<open>sanitize_filename_shape\<close>), and so does the last code point when nothing is cut
  (\<open>sanitize_filename_untruncated\<close>). A cut can leave a hyphen at the end: for 49
  letters \<^verbatim>\<open>a\<close> followed by \<^verbatim>\<open>-b\<close> the result has 50 code points and its last one
  is the hyphen.
\<close>

theorem sanitize_filename_trailing_hyphen:
  "length (sanitize_filename db (lit (replicate 49 (CHR ''a'') @ ''-b''))) = 50
   \<and> last (sanitize_filename db (lit (replicate 49 (CHR ''a'') @ ''-b''))) = hyphen"
  unfolding sanitize_filename_truncated by (simp add: lit_def hyphen_def)

section \<open>Properties of the text renderer\<close>

lemma emit_text_glyph_row:
  "emit_text m u = str_join [newline] (map (glyph_row u) m) @ [newline]"
  by (simp add: emit_text_def glyph_row_def fun_eq_iff cong: map_cong)

lemma emit_text_empty: "emit_text [] u = [newline]"
  by (simp add: emit_text_def)

lemma str_join_terminated:
  "xs \<noteq> [] \<Longrightarrow> str_join sep xs @ sep = concat (map (\<lambda>x. x @ sep) xs)"
  by (induction sep xs rule: str_join.induct) auto

lemma emit_text_nonempty:
  "m \<noteq> [] \<Longrightarrow> emit_text m u = concat (map (\<lambda>row. glyph_row u row @ [newline]) m)"
  using str_join_terminated [of "map (glyph_row u) m" "[newline]"]
  by (simp add: emit_text_glyph_row comp_def)

lemma newline_notin_glyph_row: "newline \<notin> set (glyph_row u row)"
  by (auto simp: glyph_row_def render_row_def newline_def full_block_def space_def hash_def)

lemma length_render_row:
  "length black = n \<Longrightarrow> length white = n \<Longrightarrow> length (render_row black white row) = n * length row"
  by (induction row) (auto simp: render_row_def)

lemma length_glyph_row: "length (glyph_row u row) = (if u then 1 else 2) * length row"
  by (simp add: glyph_row_def length_render_row)

lemma lines_from_line:
  "newline \<notin> set l \<Longrightarrow> lines_from cur (l @ newline # rest) = (cur @ l) # lines_from [] rest"
  by (induction l arbitrary: cur) auto

lemma lines_of_terminated:
  "\<forall>x\<in>set xs. newline \<notin> set x \<Longrightarrow> lines_of (concat (map (\<lambda>x. x @ [newline]) xs)) = xs"
proof (induction xs)
  case Nil
  then show ?case by (simp add: lines_of_def)
next
  case (Cons x xs)
  then show ?case using lines_from_line [of x "[]"] by (simp add: lines_of_def)
qed

lemma lines_of_emit_text:
  assumes "m \<noteq> []"
  shows "lines_of (emit_text m u) = map (glyph_row u) m"
proof -
  have "emit_text m u = concat (map (\<lambda>x. x @ [newline]) (map (glyph_row u) m))"
    using assms by (simp add: emit_text_nonempty comp_def)
  then show ?thesis
    using lines_of_terminated [of "map (glyph_row u) m"]
    by (simp add: newline_notin_glyph_row)
qed

lemma lines_of_emit_text_empty: "lines_of (emit_text [] u) = [[]]"
  by (simp add: emit_text_empty lines_of_def)

lemma count_newline_rows:
  "length (filter (\<lambda>c. c = newline) (concat (map (\<lambda>row. glyph_row u row @ [newline]) m)))
     = length m"
proof (induction m)
  case Nil
  then show ?case by simp
next
  case (Cons row m)
  have "filter (\<lambda>c. c = newline) (glyph_row u row) = []"
    using newline_notin_glyph_row [of u row] by (auto simp: filter_empty_conv)
  with Cons show ?case by simp
qed

lemma str_join_nonempty:
  "xs \<noteq> [] \<Longrightarrow> last xs \<noteq> [] \<Longrightarrow> str_join sep xs \<noteq> []"
  by (induction sep xs rule: str_join.induct) auto

lemma last_str_join:
  "xs \<noteq> [] \<Longrightarrow> last xs \<noteq> [] \<Longrightarrow> last (str_join sep xs) = last (last xs)"
proof (induction sep xs rule: str_join.induct)
  case (1 sep)
  then show ?case by simp
next
  case (2 sep x)
  then show ?case by simp
next
  case (3 sep x y ys)
  then have "str_join sep (y # ys) \<noteq> []"
    using str_join_nonempty [of "y # ys" sep] by simp
  with 3 show ?case by simp
qed

lemma glyph_row_nonempty: "row \<noteq> [] \<Longrightarrow> glyph_row u row \<noteq> []"
  by (cases row) (auto simp: glyph_row_def render_row_def)

lemma emit_text_before_last:
  assumes "m \<noteq> []" and "last m \<noteq> []"
  shows "last (butlast (emit_text m u)) \<noteq> newline"
proof -
  let ?rows = "map (glyph_row u) m"
  from assms have rows: "?rows \<noteq> []" "last ?rows \<noteq> []"
    by (simp_all add: last_map glyph_row_nonempty)
  then have "last (str_join [newline] ?rows) = last (last ?rows)"
    by (rule last_str_join)
  moreover have "last (last ?rows) \<in> set (glyph_row u (last m))"
    using assms rows by (simp add: last_map)
  ultimately have "last (str_join [newline] ?rows) \<noteq> newline"
    using newline_notin_glyph_row [of u "last m"] by auto
  then show ?thesis by (simp add: emit_text_glyph_row butlast_append)
qed

lemma widen_append: "widen (a @ b) = widen a @ widen b"
  by (simp add: widen_def)

lemma widen_newline: "widen [newline] = [newline]"
  by (simp add: widen_def widen_char_def newline_def full_block_def space_def)

lemma widen_glyph_row: "widen (glyph_row True row) = glyph_row False row"
  by (induction row)
     (simp_all add: glyph_row_def render_row_def widen_def widen_char_def full_block_def space_def)

lemma widen_str_join:
  "widen (str_join [newline] xs) = str_join [newline] (map widen xs)"
proof (induction "[newline]" xs rule: str_join.induct)
  case 1
  then show ?case by (simp add: widen_def)
next
  case (2 x)
  then show ?case by simp
next
  case (3 x y ys)
  have "widen (x @ [newline] @ str_join [newline] (y # ys))
      = widen x @ [newline] @ widen (str_join [newline] (y # ys))"
    by (simp only: widen_append widen_newline)
  with 3 show ?case by simp
qed

lemma widen_emit_text: "widen (emit_text m True) = emit_text m False"
  by (simp add: emit_text_glyph_row widen_append widen_newline widen_str_join widen_glyph_row
      comp_def)

text \<open>
  C4, as the code has it: for every matrix with at least one row, the output of
  \<^verbatim>\<open>emit_text\<close> has as many lines as the matrix has rows, and the line of a row is
  one code point per module in unicode mode and two per module in ASCII mode; so
  for a square matrix every line has length \<open>side\<close> in unicode mode and
  \<open>2 * side\<close> in ASCII mode.
\<close>

theorem emit_text_line_count_and_width:
  assumes "m \<noteq> []"
  shows "length (lines_of (emit_text m u)) = length m
       \<and> map length (lines_of (emit_text m u)) = map (\<lambda>row. (if u then 1 else 2) * length row) m
       \<and> ((\<forall>row\<in>set m. length row = length m) \<longrightarrow>
            (\<forall>l\<in>set (lines_of (emit_text m u)). length l = (if u then 1 else 2) * length m))"
proof -
  have lines: "lines_of (emit_text m u) = map (glyph_row u) m"
    using assms by (rule lines_of_emit_text)
  show ?thesis
    unfolding lines by (auto simp: length_glyph_row)
qed

text \<open>
  The theorem at a 2 by 2 matrix, in both modes: two lines, of length 2 in unicode
  mode and of length 4 in ASCII mode.
\<close>

theorem emit_text_line_count_and_width_witness:
  "[[True, False], [False, True]] \<noteq> []
   \<and> list_all (\<lambda>row. length row = length [[True, False], [False, True]])
         [[True, False], [False, True]]
   \<and> length (lines_of (emit_text [[True, False], [False, True]] True)) = 2
   \<and> map length (lines_of (emit_text [[True, False], [False, True]] True)) = [2, 2]
   \<and> list_all (\<lambda>l. length l = 1 * length [[True, False], [False, True]])
         (lines_of (emit_text [[True, False], [False, True]] True))
   \<and> length (lines_of (emit_text [[True, False], [False, True]] False)) = 2
   \<and> map length (lines_of (emit_text [[True, False], [False, True]] False)) = [4, 4]
   \<and> list_all (\<lambda>l. length l = 2 * length [[True, False], [False, True]])
         (lines_of (emit_text [[True, False], [False, True]] False))"
  using emit_text_line_count_and_width [of "[[True, False], [False, True]]" True]
    emit_text_line_count_and_width [of "[[True, False], [False, True]]" False]
  by (simp add: list_all_iff)

text \<open>
  C4 as stated fails in unicode mode, where a module is one code point and not two:
  the 1 by 1 matrix with a dark module renders as the single line made of one full
  block, of length 1 and not 2. It also fails for the matrix with no rows, whose
  output is one newline, that is one (empty) line for zero rows.
\<close>

theorem emit_text_unicode_width_counterexample:
  "lines_of (emit_text [[True]] True) = [[full_block]]
   \<and> length [full_block] \<noteq> 2 * length [[True]]
   \<and> length (lines_of (emit_text [] True)) \<noteq> length ([] :: matrix)"
  by (simp add: emit_text_def lines_of_def render_row_def newline_def full_block_def)

text \<open>
  C7: \<^verbatim>\<open>emit_text\<close> puts one newline between consecutive rows and exactly one after
  the last: the output is the rows in order, each followed by one newline, the rows
  themselves contain no newline, the output has as many newlines as the matrix has
  rows, and when the last row has a module the code point before the final newline
  is not a newline. The matrix with no rows yields a single newline.
\<close>

theorem emit_text_newlines:
  "emit_text [] u = [newline]
   \<and> emit_text m u = str_join [newline] (map (glyph_row u) m) @ [newline]
   \<and> (\<forall>row\<in>set m. newline \<notin> set (glyph_row u row))
   \<and> (m \<noteq> [] \<longrightarrow> emit_text m u = concat (map (\<lambda>row. glyph_row u row @ [newline]) m))
   \<and> (m \<noteq> [] \<longrightarrow> length (filter (\<lambda>c. c = newline) (emit_text m u)) = length m)
   \<and> (m \<noteq> [] \<and> last m \<noteq> [] \<longrightarrow> last (butlast (emit_text m u)) \<noteq> newline)"
proof -
  have count: "m \<noteq> [] \<longrightarrow> length (filter (\<lambda>c. c = newline) (emit_text m u)) = length m"
    using count_newline_rows [of u m] by (simp add: emit_text_nonempty)
  have before: "m \<noteq> [] \<and> last m \<noteq> [] \<longrightarrow> last (butlast (emit_text m u)) \<noteq> newline"
    by (simp add: emit_text_before_last)
  have rows: "m \<noteq> [] \<longrightarrow> emit_text m u = concat (map (\<lambda>row. glyph_row u row @ [newline]) m)"
    by (simp add: emit_text_nonempty)
  have joined: "emit_text m u = str_join [newline] (map (glyph_row u) m) @ [newline]"
    by (rule emit_text_glyph_row)
  have clean: "\<forall>row\<in>set m. newline \<notin> set (glyph_row u row)"
    by (simp add: newline_notin_glyph_row)
  from emit_text_empty [of u] joined clean rows count before show ?thesis
    by (simp only: simp_thms)
qed

text \<open>
  The theorem at a 2 by 2 matrix in ASCII mode: \<^verbatim>\<open>"##  \n  ##\n"\<close>, with two
  newlines.
\<close>

theorem emit_text_newlines_witness:
  "[[True, False], [False, True]] \<noteq> []
   \<and> emit_text [[True, False], [False, True]] False = lit ''##  '' @ [newline] @ lit ''  ##'' @ [newline]
   \<and> length (filter (\<lambda>c. c = newline) (emit_text [[True, False], [False, True]] False)) = 2
   \<and> list_all (\<lambda>row. newline \<notin> set (glyph_row False row)) [[True, False], [False, True]]
   \<and> last [[True, False], [False, True]] \<noteq> []
   \<and> last (butlast (emit_text [[True, False], [False, True]] False)) = hash
   \<and> hash \<noteq> newline"
  using emit_text_newlines [of False "[[True, False], [False, True]]"]
  by (simp add: glyph_row_def render_row_def lit_def hash_def space_def newline_def)

text \<open>
  C9: the ASCII rendering is the unicode rendering with every full block replaced
  by \<^verbatim>\<open>##\<close> and every space by two spaces, and each of its lines is twice as long
  as the corresponding line of the unicode rendering.
\<close>

theorem emit_text_ascii_is_widened_unicode:
  "emit_text m False = widen (emit_text m True)
   \<and> map length (lines_of (emit_text m False))
       = map (\<lambda>l. 2 * length l) (lines_of (emit_text m True))"
proof (cases "m = []")
  case True
  then show ?thesis
    by (simp add: widen_emit_text lines_of_emit_text_empty)
next
  case False
  then show ?thesis
    by (simp add: widen_emit_text lines_of_emit_text length_glyph_row)
qed

section \<open>Properties of the vector renderer\<close>







section \<open>Properties of the output target\<close>

lemma lit_dash_nonempty: "lit ''-'' \<noteq> []"
  by (simp add: lit_def)

text \<open>
  C1, as the code has it: an explicit path that is not empty and not \<^verbatim>\<open>-\<close> gives
  the file at exactly that path; the explicit path \<^verbatim>\<open>-\<close> gives the stream whatever
  the format; with no explicit path, or with the empty string as explicit path,
  raster gives the file \<^verbatim>\<open>sanitize_filename(input) + ".png"\<close>, vector the file
  \<^verbatim>\<open>sanitize_filename(input) + ".svg"\<close>, and text the stream.
\<close>

theorem resolve_target_policy:
  "(out a = Some p \<and> p \<noteq> [] \<and> p \<noteq> lit ''-'' \<longrightarrow> resolve_target db a = File p)
   \<and> (out a = Some (lit ''-'') \<longrightarrow> resolve_target db a = Stream)
   \<and> (out a = None \<or> out a = Some [] \<longrightarrow>
        (selected_format a = Raster \<longrightarrow>
           resolve_target db a = File (sanitize_filename db (input a) @ lit ''.png''))
      \<and> (selected_format a = Vector \<longrightarrow>
           resolve_target db a = File (sanitize_filename db (input a) @ lit ''.svg''))
      \<and> (selected_format a = Text \<longrightarrow> resolve_target db a = Stream))"
  by (auto simp: resolve_target_def output_target_def auto_target_def selected_format_def
      lit_dash_nonempty split: option.splits if_splits)

text \<open>
  The theorem at five requests for the input \<^verbatim>\<open>hi\<close>: an explicit path, the sentinel,
  and no path for each of the three formats.
\<close>

theorem resolve_target_policy_witness:
  "resolve_target ascii_db
      (parser_defaults\<lparr>input := lit ''hi'', to_svg := True, out := Some (lit ''x.svg'')\<rparr>)
     = File (lit ''x.svg'')
   \<and> resolve_target ascii_db
      (parser_defaults\<lparr>input := lit ''hi'', to_png := True, out := Some (lit ''-'')\<rparr>)
     = Stream
   \<and> resolve_target ascii_db (parser_defaults\<lparr>input := lit ''hi'', to_png := True\<rparr>)
     = File (lit ''hi.png'')
   \<and> resolve_target ascii_db (parser_defaults\<lparr>input := lit ''hi'', to_svg := True\<rparr>)
     = File (lit ''hi.svg'')
   \<and> resolve_target ascii_db (parser_defaults\<lparr>input := lit ''hi''\<rparr>) = Stream"
  using
    resolve_target_policy [where db = ascii_db and p = "lit ''x.svg''"
      and a = "parser_defaults\<lparr>input := lit ''hi'', to_svg := True, out := Some (lit ''x.svg'')\<rparr>"]
    resolve_target_policy [where db = ascii_db and p = "[]"
      and a = "parser_defaults\<lparr>input := lit ''hi'', to_png := True, out := Some (lit ''-'')\<rparr>"]
    resolve_target_policy [where db = ascii_db and p = "[]"
      and a = "parser_defaults\<lparr>input := lit ''hi'', to_png := True\<rparr>"]
    resolve_target_policy [where db = ascii_db and p = "[]"
      and a = "parser_defaults\<lparr>input := lit ''hi'', to_svg := True\<rparr>"]
    resolve_target_policy [where db = ascii_db and p = "[]"
      and a = "parser_defaults\<lparr>input := lit ''hi''\<rparr>"]
  by (simp add: parser_defaults_def selected_format_def sanitize_defs class_defs)

text \<open>
  C1 as stated fails for the empty string as explicit path: it is not the sentinel,
  but \<^verbatim>\<open>if args.out:\<close> treats it as absent, and the raster request for the input
  \<^verbatim>\<open>a\<close> goes to the file \<^verbatim>\<open>a.png\<close>, not to the file with the empty path.
\<close>

theorem resolve_target_empty_path_counterexample:
  "out (parser_defaults\<lparr>input := lit ''a'', to_png := True, out := Some []\<rparr>) = Some []
   \<and> [] \<noteq> lit ''-''
   \<and> resolve_target ascii_db (parser_defaults\<lparr>input := lit ''a'', to_png := True, out := Some []\<rparr>)
       = File (lit ''a.png'')
   \<and> File (lit ''a.png'') \<noteq> File []"
  by (simp add: resolve_target_def output_target_def auto_target_def parser_defaults_def
      sanitize_defs class_defs)

text \<open>
  C10, as the code has it: when an explicit output path is present and not empty,
  two requests with that same path and the same format resolve to the same target,
  whatever their input texts (and whatever the Unicode tables).
\<close>

theorem resolve_target_ignores_input:
  assumes "out a = Some p" and "out b = Some p" and "p \<noteq> []"
    and "selected_format a = selected_format b"
  shows "resolve_target db a = resolve_target db b"
  using assms by (simp add: resolve_target_def output_target_def)

text \<open>The theorem at two raster requests for the path \<^verbatim>\<open>x.png\<close>, with inputs \<^verbatim>\<open>a\<close> and \<^verbatim>\<open>b\<close>.\<close>

theorem resolve_target_ignores_input_witness:
  "resolve_target ascii_db
      (parser_defaults\<lparr>input := lit ''a'', to_png := True, out := Some (lit ''x.png'')\<rparr>)
   = resolve_target ascii_db
      (parser_defaults\<lparr>input := lit ''b'', to_png := True, out := Some (lit ''x.png'')\<rparr>)"
proof -
  let ?a = "parser_defaults\<lparr>input := lit ''a'', to_png := True, out := Some (lit ''x.png'')\<rparr>"
  let ?b = "parser_defaults\<lparr>input := lit ''b'', to_png := True, out := Some (lit ''x.png'')\<rparr>"
  have a: "out ?a = Some (lit ''x.png'')" by simp
  have b: "out ?b = Some (lit ''x.png'')" by simp
  have p: "lit ''x.png'' \<noteq> []" by (simp add: lit_def)
  have f: "selected_format ?a = selected_format ?b" by (simp add: selected_format_def)
  show ?thesis by (rule resolve_target_ignores_input [OF a b p f])
qed

text \<open>
  C10 as stated fails for the empty string as explicit path: two raster requests
  with that path and the inputs \<^verbatim>\<open>a\<close> and \<^verbatim>\<open>b\<close> go to the files \<^verbatim>\<open>a.png\<close> and \<^verbatim>\<open>b.png\<close>.
\<close>

theorem resolve_target_depends_on_input_counterexample:
  "resolve_target ascii_db (parser_defaults\<lparr>input := lit ''a'', to_png := True, out := Some []\<rparr>)
     = File (lit ''a.png'')
   \<and> resolve_target ascii_db (parser_defaults\<lparr>input := lit ''b'', to_png := True, out := Some []\<rparr>)
     = File (lit ''b.png'')
   \<and> File (lit ''a.png'') \<noteq> File (lit ''b.png'')"
  by (simp add: resolve_target_def output_target_def auto_target_def parser_defaults_def
      sanitize_defs class_defs)

text \<open>
  C6: with no explicit path and raster format, the input \<^verbatim>\<open>https://example.com\<close>
  resolves to the file \<^verbatim>\<open>httpsexamplecom.png\<close>, and an input with no word character
  in it (only punctuation, whitespace, hyphens) resolves to the file \<^verbatim>\<open>qrcode.png\<close>.
\<close>

theorem resolve_target_scenarios:
  assumes "out a = None" and "to_png a"
  shows "(input a = lit ''https://example.com'' \<longrightarrow>
            resolve_target db a = File (lit ''httpsexamplecom.png''))
       \<and> ((\<forall>c\<in>set (input a). \<not> is_word db c) \<longrightarrow> resolve_target db a = File (lit ''qrcode.png''))"
proof -
  have target: "resolve_target db a = File (sanitize_filename db (input a) @ lit ''.png'')"
    using assms by (simp add: resolve_target_def output_target_def auto_target_def)
  have example: "lit ''httpsexamplecom'' @ lit ''.png'' = lit ''httpsexamplecom.png''"
    by (simp add: lit_def)
  have fallback: "lit ''qrcode'' @ lit ''.png'' = lit ''qrcode.png''"
    by (simp add: lit_def)
  show ?thesis
    unfolding target
    by (auto simp: sanitize_filename_example sanitize_filename_fallback example fallback)
qed

text \<open>The theorem at the two inputs \<^verbatim>\<open>https://example.com\<close> and \<^verbatim>\<open>!?.\<close>.\<close>

theorem resolve_target_scenarios_witness:
  "resolve_target ascii_db (parser_defaults\<lparr>input := lit ''https://example.com'', to_png := True\<rparr>)
     = File (lit ''httpsexamplecom.png'')
   \<and> list_all (\<lambda>c. \<not> is_word ascii_db c) (lit ''!?.'')
   \<and> resolve_target ascii_db (parser_defaults\<lparr>input := lit ''!?.'', to_png := True\<rparr>)
     = File (lit ''qrcode.png'')"
proof -
  let ?a = "parser_defaults\<lparr>input := lit ''https://example.com'', to_png := True\<rparr>"
  let ?b = "parser_defaults\<lparr>input := lit ''!?.'', to_png := True\<rparr>"
  have a: "out ?a = None" "to_png ?a" by (simp_all add: parser_defaults_def)
  have b: "out ?b = None" "to_png ?b" by (simp_all add: parser_defaults_def)
  have punct: "\<forall>c\<in>set (lit ''!?.''). \<not> is_word ascii_db c"
    by (simp add: lit_def is_word_def ascii_alnum_def)
  from resolve_target_scenarios [OF a, of ascii_db] resolve_target_scenarios [OF b, of ascii_db] punct
  show ?thesis by (simp add: list_all_iff)
qed

section \<open>Properties of the command line\<close>

text \<open>
  A field of the namespace keeps its default when no occurrence on the command line
  stores into it.
\<close>

lemma foldl_store_unchanged:
  assumes "\<And>x b. x \<in> set argv \<Longrightarrow> field (store b x) = field b"
  shows "field (foldl store a argv) = field a"
  using assms by (induction argv arbitrary: a) simp_all

lemma foldl_store_level:
  assumes "\<forall>l. ArgLevel l \<notin> set argv"
  shows "level (foldl store a argv) = level a"
proof (rule foldl_store_unchanged)
  fix x b
  assume "x \<in> set argv"
  with assms show "level (store b x) = level b" by (cases x) auto
qed

lemma foldl_store_box_size:
  assumes "\<forall>n. ArgBoxSize n \<notin> set argv"
  shows "box_size (foldl store a argv) = box_size a"
proof (rule foldl_store_unchanged)
  fix x b
  assume "x \<in> set argv"
  with assms show "box_size (store b x) = box_size b" by (cases x) auto
qed

lemma foldl_store_border:
  assumes "\<forall>n. ArgBorder n \<notin> set argv"
  shows "border (foldl store a argv) = border a"
proof (rule foldl_store_unchanged)
  fix x b
  assume "x \<in> set argv"
  with assms show "border (store b x) = border b" by (cases x) auto
qed

lemma foldl_store_svg_style:
  assumes "\<forall>s. ArgSvgStyle s \<notin> set argv"
  shows "svg_style (foldl store a argv) = svg_style a"
proof (rule foldl_store_unchanged)
  fix x b
  assume "x \<in> set argv"
  with assms show "svg_style (store b x) = svg_style b" by (cases x) auto
qed

lemma foldl_store_flags:
  assumes "ArgToPng \<notin> set argv" and "ArgToSvg \<notin> set argv"
  shows "to_png (foldl store a argv) = to_png a" and "to_svg (foldl store a argv) = to_svg a"
proof -
  show "to_png (foldl store a argv) = to_png a"
  proof (rule foldl_store_unchanged)
    fix x b
    assume "x \<in> set argv"
    with assms show "to_png (store b x) = to_png b" by (cases x) auto
  qed
  show "to_svg (foldl store a argv) = to_svg a"
  proof (rule foldl_store_unchanged)
    fix x b
    assume "x \<in> set argv"
    with assms show "to_svg (store b x) = to_svg b" by (cases x) auto
  qed
qed

lemma parse_args_Inr:
  "parse_args argv = Inr a \<Longrightarrow> a = foldl store parser_defaults argv"
  by (simp add: parse_args_def split: if_splits)

text \<open>
  C8: a command line that parses and gives no level has level \<^verbatim>\<open>M\<close>; one that gives
  no module size has 10; no border width, 4; no vector style, \<^verbatim>\<open>path\<close>; and one
  with neither format flag is rendered as text.
\<close>

theorem parse_args_defaults:
  assumes "parse_args argv = Inr a"
  shows "((\<forall>l. ArgLevel l \<notin> set argv) \<longrightarrow> level a = lit ''M'')
       \<and> ((\<forall>n. ArgBoxSize n \<notin> set argv) \<longrightarrow> box_size a = 10)
       \<and> ((\<forall>n. ArgBorder n \<notin> set argv) \<longrightarrow> border a = 4)
       \<and> ((\<forall>s. ArgSvgStyle s \<notin> set argv) \<longrightarrow> svg_style a = lit ''path'')
       \<and> (ArgToPng \<notin> set argv \<and> ArgToSvg \<notin> set argv \<longrightarrow> selected_format a = Text)"
proof -
  have a: "a = foldl store parser_defaults argv"
    using assms by (rule parse_args_Inr)
  show ?thesis
    unfolding a
    by (simp add: foldl_store_level foldl_store_box_size foldl_store_border
        foldl_store_svg_style foldl_store_flags selected_format_def parser_defaults_def)
qed

text \<open>The theorem at the command line \<^verbatim>\<open>--input hi --ascii\<close>.\<close>

theorem parse_args_defaults_witness:
  "parse_args [ArgInput (lit ''hi''), ArgAscii]
     = Inr (parser_defaults\<lparr>input := lit ''hi'', ascii := True\<rparr>)
   \<and> level (parser_defaults\<lparr>input := lit ''hi'', ascii := True\<rparr>) = lit ''M''
   \<and> box_size (parser_defaults\<lparr>input := lit ''hi'', ascii := True\<rparr>) = 10
   \<and> border (parser_defaults\<lparr>input := lit ''hi'', ascii := True\<rparr>) = 4
   \<and> svg_style (parser_defaults\<lparr>input := lit ''hi'', ascii := True\<rparr>) = lit ''path''
   \<and> selected_format (parser_defaults\<lparr>input := lit ''hi'', ascii := True\<rparr>) = Text"
proof -
  have parsed: "parse_args [ArgInput (lit ''hi''), ArgAscii]
      = Inr (parser_defaults\<lparr>input := lit ''hi'', ascii := True\<rparr>)"
    by (simp add: parse_args_def)
  from parse_args_defaults [OF parsed] parsed show ?thesis
    by simp
qed

end
